theory Spec2Isabelle
  imports Complex_Main "HOL-Library.Signed_Division" "HOL-Library.Monad_Syntax"
begin

section \<open>C \<open>int\<close> arithmetic\<close>

text \<open>
  The program computes with C \<open>int\<close> (32 bits, two's complement). Signed overflow and
  division by zero are undefined behaviour in C++; the model computes over the mathematical
  integers and answers \<open>None\<close> whenever an operation leaves the range of \<open>int\<close> or divides
  by zero. \<open>/\<close> and \<open>%\<close> truncate towards zero (\<open>sdiv\<close>, \<open>smod\<close>).
\<close>

definition INT_MAX :: int where
  "INT_MAX = 2147483647"

definition INT_MIN :: int where
  "INT_MIN = - 2147483648"

definition is_int :: "int \<Rightarrow> bool" where
  "is_int x \<longleftrightarrow> INT_MIN \<le> x \<and> x \<le> INT_MAX"

definition c_int :: "int \<Rightarrow> int option" where
  "c_int x = (if is_int x then Some x else None)"

definition c_add :: "int \<Rightarrow> int \<Rightarrow> int option" where
  "c_add a b = c_int (a + b)"

definition c_sub :: "int \<Rightarrow> int \<Rightarrow> int option" where
  "c_sub a b = c_int (a - b)"

definition c_mul :: "int \<Rightarrow> int \<Rightarrow> int option" where
  "c_mul a b = c_int (a * b)"

definition c_div :: "int \<Rightarrow> int \<Rightarrow> int option" where
  "c_div a b = (if b = 0 then None else c_int (a sdiv b))"

definition c_mod :: "int \<Rightarrow> int \<Rightarrow> int option" where
  "c_mod a b = (if b = 0 \<or> \<not> is_int (a sdiv b) then None else Some (a smod b))"

section \<open>GetMatrixWork\<close>

text \<open>
  \<^verbatim>\<open>void GetMatrixWork (int matrixDim, int numT, int tid, int* startP, int* endP)\<close>.
  The two out-parameters are returned as the pair \<open>(start, end)\<close>. The source writes
  \<^verbatim>\<open>workload = floor(matrixDim / numT)\<close>: the quotient is already the truncated integer
  quotient, its conversion to \<open>double\<close> is exact, \<open>floor\<close> leaves it unchanged and the
  conversion back to \<open>int\<close> is exact, so the statement is the integer division.
\<close>

definition GetMatrixWork :: "int \<Rightarrow> int \<Rightarrow> int \<Rightarrow> (int \<times> int) option" where
  "GetMatrixWork matrixDim numT tid = do {
     (remainder, workload) \<leftarrow>
       (if numT \<ge> matrixDim then Some (0, 1)
        else do {
          r \<leftarrow> c_mod matrixDim numT;
          w \<leftarrow> c_div matrixDim numT;
          Some (r, w)
        });
     start \<leftarrow> c_mul workload tid;
     tid1 \<leftarrow> c_add tid 1;
     end0 \<leftarrow> c_mul workload tid1;
     numT1 \<leftarrow> c_sub numT 1;
     end1 \<leftarrow> (if tid = numT1 then c_add end0 remainder else Some end0);
     Some (if tid \<ge> matrixDim then (- 1, - 1) else (start, end1))
   }"

text \<open>The test \<^verbatim>\<open>start == -1 && end == -1\<close> of \<open>CalculateFilter\<close>: the "no work" value.\<close>

definition no_work :: "int \<times> int \<Rightarrow> bool" where
  "no_work r \<longleftrightarrow> fst r = - 1 \<and> snd r = - 1"

text \<open>The row indices of a range: nothing for the "no work" value, else \<open>[start, end)\<close>.\<close>

definition rows_of :: "int \<times> int \<Rightarrow> int set" where
  "rows_of r = (if no_work r then {} else {fst r ..< snd r})"

text \<open>The rows a thread is given: the rows of the range \<open>GetMatrixWork\<close> returns for it.\<close>

definition thread_rows :: "int \<Rightarrow> int \<Rightarrow> int \<Rightarrow> int set" where
  "thread_rows N T tid = (case GetMatrixWork N T tid of None \<Rightarrow> {} | Some r \<Rightarrow> rows_of r)"

text \<open>
  The values the locals \<open>workload\<close> and \<open>remainder\<close> of \<open>GetMatrixWork\<close> hold for
  \<open>N \<ge> 1\<close> and \<open>T \<ge> 1\<close>, in the words of the specification: one row per thread when
  there are at least as many threads as rows, else \<open>floor (N / T)\<close> rows and \<open>N mod T\<close> left over.
\<close>

definition workload_of :: "int \<Rightarrow> int \<Rightarrow> int" where
  "workload_of N T = (if T \<ge> N then 1 else N div T)"

definition remainder_of :: "int \<Rightarrow> int \<Rightarrow> int" where
  "remainder_of N T = (if T \<ge> N then 0 else N mod T)"

section \<open>Program state and output\<close>

text \<open>
  The state the functions below act on: the matrix behind the \<^verbatim>\<open>int** matrix\<close> pointer (a
  list of rows), and the characters written to standard output so far. \<open>visited\<close> is a probe
  that is not in the source: the row loop of \<open>CalculateFilter\<close> appends the index of the row
  each of its iterations works on, so that "which rows were processed, in which order" can
  be stated.
\<close>

record state =
  matrix :: "int list list"
  stdout :: string
  visited :: "int list"

definition endl :: string where
  "endl = [CHR 0x0A]"

definition tab :: string where
  "tab = [CHR 0x09]"

text \<open>Decimal output of an \<open>int\<close>, as \<^verbatim>\<open>cout << int\<close> and \<^verbatim>\<open>printf("%d")\<close> write it.\<close>

fun show_nat :: "nat \<Rightarrow> string" where
  "show_nat n =
     (if n < 10 then [char_of (48 + n)] else show_nat (n div 10) @ [char_of (48 + n mod 10)])"

declare show_nat.simps [simp del]

definition show_int :: "int \<Rightarrow> string" where
  "show_int k = (if k < 0 then CHR ''-'' # show_nat (nat (- k)) else show_nat (nat k))"

text \<open>
  The read \<^verbatim>\<open>matrix[row][i]\<close>. An index outside the allocated rows or outside the row is
  undefined behaviour: \<open>None\<close>.
\<close>

definition matrix_at :: "int list list \<Rightarrow> int \<Rightarrow> int \<Rightarrow> int option" where
  "matrix_at m row i =
     (if 0 \<le> row \<and> row < int (length m) then
        (if 0 \<le> i \<and> i < int (length (m ! nat row)) then Some (m ! nat row ! nat i) else None)
      else None)"

section \<open>CalculateFilter\<close>

text \<open>
  The inner loop of \<open>CalculateFilter\<close>,
  \<^verbatim>\<open>for (int i = 0; i < matrixDim; i++) cout << matrix[row][i] << "\t";\<close>,
  from the current value of \<open>i\<close>.
\<close>

function CalculateFilter_cols :: "int \<Rightarrow> int \<Rightarrow> int \<Rightarrow> state \<Rightarrow> state option" where
  "CalculateFilter_cols matrixDim row i s =
     (if i < matrixDim then
        (case matrix_at (matrix s) row i of
           None \<Rightarrow> None
         | Some v \<Rightarrow>
             CalculateFilter_cols matrixDim row (i + 1)
               (s\<lparr>stdout := stdout s @ show_int v @ tab\<rparr>))
      else Some s)"
  by pat_completeness auto
termination
  by (relation "measure (\<lambda>(matrixDim, row, i, s). nat (matrixDim - i))") auto

declare CalculateFilter_cols.simps [simp del]

text \<open>
  The row loop, \<^verbatim>\<open>for (int row = start; row < end; row++) { ...; cout << endl; }\<close>, from the
  current value of \<open>row\<close>.
\<close>

function CalculateFilter_rows :: "int \<Rightarrow> int \<Rightarrow> int \<Rightarrow> state \<Rightarrow> state option" where
  "CalculateFilter_rows matrixDim endR row s =
     (if row < endR then
        (case CalculateFilter_cols matrixDim row 0 (s\<lparr>visited := visited s @ [row]\<rparr>) of
           None \<Rightarrow> None
         | Some s1 \<Rightarrow>
             CalculateFilter_rows matrixDim endR (row + 1) (s1\<lparr>stdout := stdout s1 @ endl\<rparr>))
      else Some s)"
  by pat_completeness auto
termination
  by (relation "measure (\<lambda>(matrixDim, endR, row, s). nat (endR - row))") auto

declare CalculateFilter_rows.simps [simp del]

text \<open>
  \<^verbatim>\<open>void CalculateFilter (int** matrix, int matrixDim, int numT, int tid)\<close>; the matrix the
  pointer refers to is the \<open>matrix\<close> of the state.
\<close>

definition CalculateFilter :: "int \<Rightarrow> int \<Rightarrow> int \<Rightarrow> state \<Rightarrow> state option" where
  "CalculateFilter matrixDim numT tid s = do {
     (start, endR) \<leftarrow> GetMatrixWork matrixDim numT tid;
     if start = - 1 \<and> endR = - 1 then Some s
     else CalculateFilter_rows matrixDim endR start
            (s\<lparr>stdout := stdout s @ ''Thread '' @ show_int tid @ '' of '' @ show_int numT @ endl\<rparr>)
   }"

text \<open>
  The loop of \<open>main\<close> that hands out the work,
  \<^verbatim>\<open>for (int i = 0; i < numThreads; i++) CalculateFilter(matrix, matrixDimension, numThreads, i);\<close>,
  from the current value of \<open>i\<close>.
\<close>

function main_threads :: "int \<Rightarrow> int \<Rightarrow> int \<Rightarrow> state \<Rightarrow> state option" where
  "main_threads matrixDimension numThreads i s =
     (if i < numThreads then
        (case CalculateFilter matrixDimension numThreads i s of
           None \<Rightarrow> None
         | Some s1 \<Rightarrow> main_threads matrixDimension numThreads (i + 1) s1)
      else Some s)"
  by pat_completeness auto
termination
  by (relation "measure (\<lambda>(matrixDimension, numThreads, i, s). nat (numThreads - i))") auto

declare main_threads.simps [simp del]

text \<open>A matrix of dimension \<open>N\<close>: \<open>N\<close> rows of \<open>N\<close> elements each.\<close>

definition square :: "int \<Rightarrow> int list list \<Rightarrow> bool" where
  "square N m \<longleftrightarrow> int (length m) = N \<and> list_all (\<lambda>r. int (length r) = N) m"

text \<open>
  What the specification says is written: a header line for a thread that has work, and one
  line per row, each value followed by a tab.
\<close>

definition thread_header :: "int \<Rightarrow> int \<Rightarrow> string" where
  "thread_header tid numT = ''Thread '' @ show_int tid @ '' of '' @ show_int numT @ endl"

definition row_text :: "int list list \<Rightarrow> int \<Rightarrow> int \<Rightarrow> string" where
  "row_text m N row = concat (map (\<lambda>i. show_int (m ! nat row ! nat i) @ tab) [0..N - 1]) @ endl"

text \<open>
  The number of rows handed to the threads below \<open>i\<close>, for \<open>N \<ge> 1\<close>, \<open>T \<ge> 1\<close> and
  \<open>0 \<le> i \<le> T\<close>: thread \<open>i\<close> starts at this row.
\<close>

definition rows_before :: "int \<Rightarrow> int \<Rightarrow> int \<Rightarrow> int" where
  "rows_before N T i = (if i \<ge> T then N else if T \<ge> N then min i N else N div T * i)"

text \<open>
  What one thread contributes: the rows of its range in the order the row loop takes them,
  and the text its call writes, the header followed by the lines of these rows. A thread
  with the "no work" value contributes neither.
\<close>

definition thread_row_list :: "int \<Rightarrow> int \<Rightarrow> int \<Rightarrow> int list" where
  "thread_row_list N T tid =
     (case GetMatrixWork N T tid of
        None \<Rightarrow> []
      | Some r \<Rightarrow> if no_work r then [] else [fst r..snd r - 1])"

definition thread_out :: "int list list \<Rightarrow> int \<Rightarrow> int \<Rightarrow> int \<Rightarrow> string" where
  "thread_out m N T tid =
     (case GetMatrixWork N T tid of
        None \<Rightarrow> []
      | Some r \<Rightarrow>
          if no_work r then []
          else thread_header tid T @ concat (map (row_text m N) (thread_row_list N T tid)))"

section \<open>Command-line arguments\<close>

text \<open>
  How a call ends: with undefined behaviour, with the process terminated by \<^verbatim>\<open>exit(status)\<close>
  (or by \<open>main\<close> returning \<open>status\<close>), or with a normal return of a value. The last two carry
  the standard output written so far.
\<close>

datatype 'a outcome = Undefined | Exit int string | Return 'a string

text \<open>\<^verbatim>\<open>EXIT_FAILURE\<close> of \<^verbatim>\<open><stdlib.h>\<close>: 1 on the platforms the program builds on.\<close>

definition EXIT_FAILURE :: int where
  "EXIT_FAILURE = 1"

text \<open>
  \<^verbatim>\<open>atoi\<close> of the C library: skip white space, take an optional sign, then read decimal digits
  up to the first character that is not a digit; no digits give 0. A value that does not fit
  in \<open>int\<close> is undefined behaviour.
\<close>

definition isspace :: "char \<Rightarrow> bool" where
  "isspace c \<longleftrightarrow> c \<in> set [CHR '' '', CHR 0x09, CHR 0x0A, CHR 0x0B, CHR 0x0C, CHR 0x0D]"

definition isdigit :: "char \<Rightarrow> bool" where
  "isdigit c \<longleftrightarrow> (48::nat) \<le> of_char c \<and> of_char c \<le> (57::nat)"

fun atoi_digits :: "string \<Rightarrow> int \<Rightarrow> int" where
  "atoi_digits [] acc = acc"
| "atoi_digits (c # cs) acc =
     (if isdigit c then atoi_digits cs (10 * acc + (int (of_char c) - 48)) else acc)"

definition atoi :: "string \<Rightarrow> int option" where
  "atoi str =
     (case dropWhile isspace str of
        [] \<Rightarrow> Some 0
      | c # cs \<Rightarrow>
          if c = CHR ''-'' then c_int (- atoi_digits cs 0)
          else if c = CHR ''+'' then c_int (atoi_digits cs 0)
          else c_int (atoi_digits (c # cs) 0))"

text \<open>The two messages \<open>ProcessArguments\<close> writes, each ending in the usage.\<close>

definition usage_line :: string where
  "usage_line = tab @ ''convolution [matrixFile] [filterDepth] [numThreads]'' @ endl"

definition invalid_number_message :: string where
  "invalid_number_message =
     ''[ERROR] Invalid number of arguments given.'' @ endl @ ''Usage:'' @ endl @ usage_line"

definition invalid_values_message :: string where
  "invalid_values_message =
     ''[ERROR] Invalid values given for depth or numThreads'' @ endl @ ''Usage:'' @ endl
       @ usage_line @ ''Where filterDepth and numThreads are ints > 0'' @ endl"

text \<open>
  \<^verbatim>\<open>void ProcessArguments (int argc, char** argv, string* file, int* dpth, int* nTh)\<close> of the
  final revision, which leaves through \<^verbatim>\<open>exit(EXIT_FAILURE)\<close> on arguments it rejects.
  \<open>argc\<close> is the length of \<open>argv\<close>; the three out-parameters are the returned triple. The
  second test is \<^verbatim>\<open>atoi(argv[2]) == 0 || atoi(argv[3]) == 0\<close>, evaluated left to right, the
  right operand only when the left one is false.
\<close>

definition ProcessArguments :: "string list \<Rightarrow> string \<Rightarrow> (string \<times> int \<times> int) outcome" where
  "ProcessArguments argv out =
     (if int (length argv) < 4 then Exit EXIT_FAILURE (out @ invalid_number_message)
      else
        (case atoi (argv ! 2) of
           None \<Rightarrow> Undefined
         | Some dpth \<Rightarrow>
             if dpth = 0 then Exit EXIT_FAILURE (out @ invalid_values_message)
             else
               (case atoi (argv ! 3) of
                  None \<Rightarrow> Undefined
                | Some nTh \<Rightarrow>
                    if nTh = 0 then Exit EXIT_FAILURE (out @ invalid_values_message)
                    else Return (argv ! 1, dpth, nTh) out)))"

text \<open>
  The first revision (\<^verbatim>\<open>src/convolution.cc\<close>): \<open>ProcessArguments\<close> reports through its return
  value, 1 for rejected arguments and 0 otherwise, and writes the out-parameters only when it
  returns 0; \<open>main\<close> prints the arguments it accepted, and its return value is the exit status
  of the process.
\<close>

definition ProcessArguments_v1 ::
    "string list \<Rightarrow> string \<Rightarrow> (int \<times> (string \<times> int \<times> int) option) outcome" where
  "ProcessArguments_v1 argv out =
     (if int (length argv) < 4 then Return (1, None) (out @ invalid_number_message)
      else
        (case atoi (argv ! 2) of
           None \<Rightarrow> Undefined
         | Some dpth \<Rightarrow>
             if dpth = 0 then Return (1, None) (out @ invalid_values_message)
             else
               (case atoi (argv ! 3) of
                  None \<Rightarrow> Undefined
                | Some nTh \<Rightarrow>
                    if nTh = 0 then Return (1, None) (out @ invalid_values_message)
                    else Return (0, Some (argv ! 1, dpth, nTh)) out)))"

definition main_v1 :: "string list \<Rightarrow> unit outcome" where
  "main_v1 argv =
     (case ProcessArguments_v1 argv [] of
        Undefined \<Rightarrow> Undefined
      | Exit status out \<Rightarrow> Exit status out
      | Return (rc, vars) out \<Rightarrow>
          if rc \<noteq> 0 then Exit 0 (out @ endl @ ''Program exiting...'' @ endl)
          else
            (case vars of
               None \<Rightarrow> Undefined
             | Some (filename, filterDepth, numThreads) \<Rightarrow>
                 Exit 0 (out @ ''file: '' @ filename @ '' depth: '' @ show_int filterDepth
                             @ '' threads: '' @ show_int numThreads @ endl)))"

text \<open>
  \<open>main\<close> of the final revision calls \<open>ProcessArguments\<close> first. The statements after the call
  (the dimension, the reading of the matrix file, the loop over the threads, the printing of
  the whole matrix) are the continuation \<open>rest\<close>, which receives the accepted arguments.
\<close>

definition main :: "(string \<times> int \<times> int \<Rightarrow> string \<Rightarrow> unit outcome) \<Rightarrow> string list \<Rightarrow> unit outcome" where
  "main rest argv =
     (case ProcessArguments argv [] of
        Undefined \<Rightarrow> Undefined
      | Exit status out \<Rightarrow> Exit status out
      | Return args out \<Rightarrow> rest args out)"

section \<open>GetMatrixDimension\<close>

text \<open>
  What the C library answers for a file that \<^verbatim>\<open>fopen\<close> opens: the return value of
  \<^verbatim>\<open>fseek(file, 0, SEEK_END)\<close> and the value of \<^verbatim>\<open>ftell(file)\<close> after it, which is the size of
  the file in bytes when both succeed. A file system maps a name to \<open>None\<close> when \<^verbatim>\<open>fopen\<close>
  returns \<^verbatim>\<open>NULL\<close>.
\<close>

record file_answers =
  fseek_ret :: int
  ftell_ret :: int

text \<open>
  The conversion of the \<^verbatim>\<open>long\<close> that \<^verbatim>\<open>ftell\<close> returns to the \<open>int size\<close>: the value modulo
  \<open>2 ^ 32\<close>, as the compilers the program builds with define it.
\<close>

definition int_of_long :: "int \<Rightarrow> int" where
  "int_of_long x = (x + 2 ^ 31) mod 2 ^ 32 - 2 ^ 31"

text \<open>
  The conversion of the \<open>double\<close> that \<^verbatim>\<open>sqrt\<close> returns to the \<open>int\<close> result: truncation
  towards zero, undefined when the truncated value does not fit.
\<close>

definition double_to_int :: "real \<Rightarrow> int option" where
  "double_to_int y = c_int (if 0 \<le> y then \<lfloor>y\<rfloor> else \<lceil>y\<rceil>)"

definition quote :: string where
  "quote = [CHR 0x27]"

text \<open>
  \<^verbatim>\<open>int GetMatrixDimension (string filenameStr)\<close>. \<^verbatim>\<open>sqrt\<close> of \<^verbatim>\<open><math.h>\<close> is the parameter
  \<open>sqrt_double\<close>, a function on the reals that \<open>double\<close> values denote. The square root of
  a negative \<open>dimension\<close> is not a number, and its conversion to \<open>int\<close> is undefined.
\<close>

definition GetMatrixDimension ::
    "(real \<Rightarrow> real) \<Rightarrow> (string \<Rightarrow> file_answers option) \<Rightarrow> string \<Rightarrow> string \<Rightarrow> int outcome" where
  "GetMatrixDimension sqrt_double fs filenameStr out =
     (case fs filenameStr of
        None \<Rightarrow>
          Exit 1 (out @ ''[ERROR] Could not open file '' @ quote @ filenameStr @ quote @ endl)
      | Some file \<Rightarrow>
          if fseek_ret file \<noteq> 0 then
            Exit 1 (out @ ''[ERROR] Could not get dimension for file '' @ quote @ filenameStr
                        @ quote @ endl)
          else
            (let size = int_of_long (ftell_ret file) in
             if size = - 1 then
               Exit 1 (out @ ''[ERROR] Could not get dimension for file '' @ quote @ filenameStr
                           @ quote @ endl)
             else
               (case c_div size 4 of
                  None \<Rightarrow> Undefined
                | Some dimension \<Rightarrow>
                    if dimension < 0 then Undefined
                    else
                      (case double_to_int (sqrt_double (real_of_int dimension)) of
                         None \<Rightarrow> Undefined
                       | Some r \<Rightarrow> Return r out))))"

text \<open>
  What IEEE 754 asks of \<^verbatim>\<open>sqrt\<close> on \<open>double\<close>, on the arguments the function can pass: the
  result is the \<open>double\<close> nearest to the exact root, hence within the relative error
  \<open>2 ^ - 53\<close> of it, and exact when the root is a whole number.
\<close>

definition sqrt_correctly_rounded :: "(real \<Rightarrow> real) \<Rightarrow> bool" where
  "sqrt_correctly_rounded f \<longleftrightarrow>
     (\<forall>d::nat. d < 2 ^ 31 \<longrightarrow>
        \<bar>f (real d) - sqrt (real d)\<bar> \<le> sqrt (real d) / 2 ^ 53
        \<and> (\<forall>k::nat. d = k * k \<longrightarrow> f (real d) = real k))"

section \<open>Facts about C arithmetic on non-negative operands\<close>

lemmas c_arith_defs = c_mod_def c_div_def c_mul_def c_add_def c_sub_def c_int_def is_int_def
  INT_MAX_def INT_MIN_def

lemma sdiv_pos: "0 \<le> a \<Longrightarrow> 0 < b \<Longrightarrow> a sdiv b = a div (b::int)"
  by (simp add: signed_divide_int_def sgn_if)

lemma smod_pos: "0 \<le> a \<Longrightarrow> 0 < b \<Longrightarrow> a smod b = a mod (b::int)"
  by (simp add: signed_modulo_int_def sgn_if)

lemma workload_bounds:
  assumes "1 \<le> T" "T < N"
  shows "1 \<le> N div T" "N div T * T \<le> (N::int)" "N div T \<le> N"
proof -
  have "0 < N div T" using assms by (subst pos_imp_zdiv_pos_iff) auto
  then show w1: "1 \<le> N div T" by simp
  have "N div T * T + N mod T = N" by simp
  moreover have "0 \<le> N mod T" using assms by simp
  ultimately show a: "N div T * T \<le> N" by linarith
  have "N div T * 1 \<le> N div T * T" using assms w1 by (intro mult_left_mono) auto
  then show "N div T \<le> N" using a by simp
qed

section \<open>Closed forms of GetMatrixWork\<close>

lemma GetMatrixWork_sparse:
  assumes "N \<le> T" "is_int T" "0 \<le> tid" "tid < T"
  shows "GetMatrixWork N T tid = Some (if tid \<ge> N then (- 1, - 1) else (tid, tid + 1))"
  using assms by (simp add: GetMatrixWork_def c_arith_defs)

lemma GetMatrixWork_dense:
  assumes "1 \<le> T" "T < N" "is_int N" "0 \<le> tid" "tid < T"
  shows "GetMatrixWork N T tid =
    Some (N div T * tid, N div T * (tid + 1) + (if tid = T - 1 then N mod T else 0))"
proof -
  let ?w = "N div T"
  have w: "1 \<le> ?w" "?w * T \<le> N" "?w \<le> N" using workload_bounds[OF assms(1,2)] .
  have sd: "N sdiv T = ?w" "N smod T = N mod T" using assms by (simp_all add: sdiv_pos smod_pos)
  have m1: "?w * tid \<le> ?w * T" using w assms by (intro mult_left_mono) auto
  have m2: "?w * (tid + 1) \<le> ?w * T" using w assms by (intro mult_left_mono) auto
  have m0: "0 \<le> ?w * tid" "0 \<le> ?w * (tid + 1)" using w assms by auto
  have last: "?w * T + N mod T = N" by simp
  have iw: "is_int ?w" "is_int (?w * tid)" "is_int (?w * (tid + 1))" "is_int (tid + 1)" "is_int (T - 1)"
    using w m1 m2 m0 assms unfolding is_int_def INT_MAX_def INT_MIN_def by linarith+
  have il: "tid = T - 1 \<Longrightarrow> is_int (?w * (tid + 1) + N mod T)"
    using last assms by simp
  have tn: "\<not> N \<le> tid" using assms by simp
  have nt: "\<not> N \<le> T" "T \<noteq> 0" using assms by auto
  show ?thesis
    unfolding GetMatrixWork_def c_mod_def c_div_def c_mul_def c_add_def c_sub_def c_int_def
    using iw il tn nt by (simp add: sd)
qed

lemma thread_rows_sparse:
  assumes "N \<le> T" "is_int T" "0 \<le> tid" "tid < T"
  shows "thread_rows N T tid = (if tid \<ge> N then {} else {tid})"
  using assms by (auto simp: thread_rows_def GetMatrixWork_sparse rows_of_def no_work_def)

lemma thread_rows_dense:
  assumes "1 \<le> T" "T < N" "is_int N" "0 \<le> tid" "tid < T"
  shows "thread_rows N T tid =
    {N div T * tid ..< (if tid = T - 1 then N else N div T * (tid + 1))}"
proof -
  have w: "1 \<le> N div T" using workload_bounds[OF assms(1,2)] by simp
  have "0 \<le> N div T * tid" using w assms by simp
  then have nw: "N div T * tid \<noteq> - 1" by linarith
  have last: "N div T * T + N mod T = N" by simp
  have "tid = T - 1 \<Longrightarrow> N div T * (tid + 1) + N mod T = N" using last by simp
  then show ?thesis
    using nw by (auto simp: thread_rows_def GetMatrixWork_dense[OF assms] rows_of_def no_work_def)
qed

lemma thread_rows_sparse_Union:
  assumes "1 \<le> N" "N \<le> T" "is_int T"
  shows "(\<Union>tid\<in>{0..<T}. thread_rows N T tid) = {0..<N}"
proof -
  have "(\<Union>tid\<in>{0..<T}. thread_rows N T tid) = (\<Union>tid\<in>{0..<T}. if tid \<ge> N then {} else {tid})"
    using assms by (intro SUP_cong refl) (simp add: thread_rows_sparse)
  also have "\<dots> = {0..<N}" using assms by (auto split: if_splits)
  finally show ?thesis .
qed

lemma thread_rows_dense_Union:
  assumes "1 \<le> T" "T < N" "is_int N"
  shows "(\<Union>tid\<in>{0..<T}. thread_rows N T tid) = {0..<N}"
proof (intro equalityI subsetI)
  let ?w = "N div T"
  have w: "1 \<le> ?w" "?w * T \<le> N" using workload_bounds[OF assms(1,2)] by simp_all
  fix x assume "x \<in> (\<Union>tid\<in>{0..<T}. thread_rows N T tid)"
  then obtain tid where t: "0 \<le> tid" "tid < T" and x: "x \<in> thread_rows N T tid" by auto
  have lo: "0 \<le> ?w * tid" using w t by simp
  have "?w * (tid + 1) \<le> ?w * T" using w t by (intro mult_left_mono) auto
  then have hi: "?w * (tid + 1) \<le> N" using w by linarith
  from x have "?w * tid \<le> x" "x < (if tid = T - 1 then N else ?w * (tid + 1))"
    by (simp_all add: thread_rows_dense[OF assms t])
  then show "x \<in> {0..<N}" using lo hi by (auto split: if_splits)
next
  let ?w = "N div T"
  have w: "1 \<le> ?w" "?w * T \<le> N" using workload_bounds[OF assms(1,2)] by simp_all
  fix x assume "x \<in> {0..<N}"
  then have x: "0 \<le> x" "x < N" by auto
  show "x \<in> (\<Union>tid\<in>{0..<T}. thread_rows N T tid)"
  proof (cases "?w * (T - 1) \<le> x")
    case True
    have t: "0 \<le> T - 1" "T - 1 < T" using assms by auto
    have "x \<in> thread_rows N T (T - 1)"
      using True x by (simp add: thread_rows_dense[OF assms t])
    then show ?thesis using t by (intro UN_I[of "T - 1"]) auto
  next
    case False
    let ?t = "x div ?w"
    have t0: "0 \<le> ?t" using x w by (simp add: pos_imp_zdiv_nonneg_iff)
    have xw: "?w * ?t \<le> x" "x < ?w * (?t + 1)"
    proof -
      have e: "?w * ?t + x mod ?w = x" by simp
      have m: "0 \<le> x mod ?w" "x mod ?w < ?w" using w by simp_all
      have d: "?w * (?t + 1) = ?w * ?t + ?w" by (simp add: algebra_simps)
      show "?w * ?t \<le> x" using e m by linarith
      show "x < ?w * (?t + 1)" using e m d by linarith
    qed
    have "?w * ?t < ?w * (T - 1)" using xw False by linarith
    then have t1: "?t < T - 1" using w by (simp add: mult_less_cancel_left)
    then have t: "0 \<le> ?t" "?t < T" using t0 by auto
    have "x \<in> thread_rows N T ?t"
      using xw t1 by (simp add: thread_rows_dense[OF assms t])
    then show ?thesis using t by (intro UN_I[of ?t]) auto
  qed
qed

lemma thread_rows_dense_disjoint:
  assumes "1 \<le> T" "T < N" "is_int N" "0 \<le> i" "i < j" "j < T"
  shows "thread_rows N T i \<inter> thread_rows N T j = {}"
proof -
  let ?w = "N div T"
  have w: "1 \<le> ?w" using workload_bounds[OF assms(1,2)] by simp
  have ti: "0 \<le> i" "i < T" and tj: "0 \<le> j" "j < T" using assms by auto
  have "?w * (i + 1) \<le> ?w * j" using w assms by (intro mult_left_mono) auto
  moreover have "i \<noteq> T - 1" using assms by auto
  ultimately show ?thesis
    by (auto simp: thread_rows_dense[OF assms(1,2,3) ti] thread_rows_dense[OF assms(1,2,3) tj])
qed

lemma thread_rows_sparse_disjoint:
  assumes "N \<le> T" "is_int T" "0 \<le> i" "i < j" "j < T"
  shows "thread_rows N T i \<inter> thread_rows N T j = {}"
  using assms by (simp add: thread_rows_sparse)

lemma thread_rows_disjoint_lt:
  assumes "1 \<le> N" "1 \<le> T" "is_int N" "is_int T" "0 \<le> i" "i < j" "j < T"
  shows "thread_rows N T i \<inter> thread_rows N T j = {}"
proof (cases "N \<le> T")
  case True
  then show ?thesis using assms by (intro thread_rows_sparse_disjoint) auto
next
  case False
  then show ?thesis using assms by (intro thread_rows_dense_disjoint) auto
qed

lemma thread_rows_Union:
  assumes "1 \<le> N" "1 \<le> T" "is_int N" "is_int T"
  shows "(\<Union>tid\<in>{0..<T}. thread_rows N T tid) = {0..<N}"
proof (cases "N \<le> T")
  case True
  then show ?thesis using assms by (intro thread_rows_sparse_Union) auto
next
  case False
  then show ?thesis using assms by (intro thread_rows_dense_Union) auto
qed

lemma GetMatrixWork_defined:
  assumes "1 \<le> N" "1 \<le> T" "is_int N" "is_int T" "0 \<le> tid" "tid < T"
  shows "GetMatrixWork N T tid \<noteq> None"
proof (cases "N \<le> T")
  case True
  then show ?thesis using assms by (simp add: GetMatrixWork_sparse)
next
  case False
  then show ?thesis using assms by (simp add: GetMatrixWork_dense)
qed

lemma GetMatrixWork_any_tid:
  assumes "1 \<le> N" "1 \<le> T" "is_int N" "is_int T"
  shows "GetMatrixWork N T tid =
    (if is_int (workload_of N T * tid) \<and> is_int (tid + 1) \<and> is_int (workload_of N T * (tid + 1))
     then Some (if tid \<ge> N then (- 1, - 1)
                else (workload_of N T * tid,
                      workload_of N T * (tid + 1) + (if tid = T - 1 then remainder_of N T else 0)))
     else None)"
proof (cases "N \<le> T")
  case True
  have "is_int (T - 1)" using assms unfolding is_int_def INT_MIN_def INT_MAX_def by linarith
  then show ?thesis
    using True assms
    by (simp add: GetMatrixWork_def workload_of_def remainder_of_def c_mul_def c_add_def
        c_sub_def c_int_def)
next
  case False
  let ?w = "N div T"
  have TN: "T < N" using False by simp
  have w: "1 \<le> ?w" "?w * T \<le> N" "?w \<le> N" using workload_bounds[OF assms(2) TN] .
  have sd: "N sdiv T = ?w" "N smod T = N mod T" using assms by (simp_all add: sdiv_pos smod_pos)
  have iw: "is_int ?w" "is_int (T - 1)"
    using w assms unfolding is_int_def INT_MAX_def INT_MIN_def by linarith+
  have last: "?w * T + N mod T = N" by simp
  have il: "tid = T - 1 \<Longrightarrow> is_int (?w * (tid + 1) + N mod T)"
    using last assms by simp
  have nt: "T \<noteq> 0" using assms by auto
  show ?thesis
    unfolding GetMatrixWork_def c_mod_def c_div_def c_mul_def c_add_def c_sub_def c_int_def
      workload_of_def remainder_of_def
    using iw il nt False by (simp add: sd)
qed

section \<open>The loops of CalculateFilter\<close>

lemma square_row:
  assumes "square N m" "0 \<le> row" "row < N"
  shows "row < int (length m)" "int (length (m ! nat row)) = N"
proof -
  show r: "row < int (length m)" using assms by (simp add: square_def)
  have "nat row < length m" using r assms by simp
  then have "m ! nat row \<in> set m" by simp
  then show "int (length (m ! nat row)) = N" using assms by (auto simp: square_def list_all_iff)
qed

lemma CalculateFilter_cols_frame:
  "CalculateFilter_cols N row i s = Some s' \<Longrightarrow> matrix s' = matrix s \<and> visited s' = visited s"
proof (induction N row i s rule: CalculateFilter_cols.induct)
  case (1 matrixDim row i s)
  show ?case
  proof (cases "i < matrixDim")
    case True
    then obtain v where v: "matrix_at (matrix s) row i = Some v"
      using "1.prems" by (subst (asm) CalculateFilter_cols.simps) (auto split: option.splits)
    have "CalculateFilter_cols matrixDim row (i + 1) (s\<lparr>stdout := stdout s @ show_int v @ tab\<rparr>) = Some s'"
      using "1.prems" True v by (subst (asm) CalculateFilter_cols.simps) simp
    from "1.IH"[OF True v this] show ?thesis by simp
  next
    case False
    then show ?thesis using "1.prems" by (subst (asm) CalculateFilter_cols.simps) simp
  qed
qed

lemma CalculateFilter_rows_frame:
  "CalculateFilter_rows N endR row s = Some s' \<Longrightarrow> matrix s' = matrix s"
proof (induction N endR row s rule: CalculateFilter_rows.induct)
  case (1 matrixDim endR row s)
  show ?case
  proof (cases "row < endR")
    case True
    then obtain s1 where s1: "CalculateFilter_cols matrixDim row 0 (s\<lparr>visited := visited s @ [row]\<rparr>) = Some s1"
      using "1.prems" by (subst (asm) CalculateFilter_rows.simps) (auto split: option.splits)
    have m1: "matrix s1 = matrix s" using CalculateFilter_cols_frame[OF s1] by simp
    have "CalculateFilter_rows matrixDim endR (row + 1) (s1\<lparr>stdout := stdout s1 @ endl\<rparr>) = Some s'"
      using "1.prems" True s1 by (subst (asm) CalculateFilter_rows.simps) simp
    from "1.IH"[OF True s1 this] show ?thesis using m1 by simp
  next
    case False
    then show ?thesis using "1.prems" by (subst (asm) CalculateFilter_rows.simps) simp
  qed
qed

lemma CalculateFilter_frame:
  assumes "CalculateFilter N T tid s = Some s'"
  shows "matrix s' = matrix s"
proof -
  obtain start endR where g: "GetMatrixWork N T tid = Some (start, endR)"
    using assms by (cases "GetMatrixWork N T tid") (auto simp: CalculateFilter_def)
  show ?thesis
  proof (cases "start = - 1 \<and> endR = - 1")
    case True
    then show ?thesis using assms g by (simp add: CalculateFilter_def)
  next
    case False
    then have "CalculateFilter_rows N endR start
        (s\<lparr>stdout := stdout s @ ''Thread '' @ show_int tid @ '' of '' @ show_int T @ endl\<rparr>) = Some s'"
      using assms g by (auto simp: CalculateFilter_def)
    from CalculateFilter_rows_frame[OF this] show ?thesis by simp
  qed
qed

lemma CalculateFilter_cols_square:
  assumes "square N (matrix s)" "0 \<le> row" "row < N" "0 \<le> i"
  shows "CalculateFilter_cols N row i s =
    Some (s\<lparr>stdout := stdout s @ concat (map (\<lambda>j. show_int (matrix s ! nat row ! nat j) @ tab) [i..N - 1])\<rparr>)"
  using assms
proof (induction N row i s rule: CalculateFilter_cols.induct)
  case (1 matrixDim row i s)
  show ?case
  proof (cases "i < matrixDim")
    case True
    note sq = square_row[OF "1.prems"(1,2,3)]
    let ?v = "matrix s ! nat row ! nat i"
    let ?s = "s\<lparr>stdout := stdout s @ show_int ?v @ tab\<rparr>"
    have v: "matrix_at (matrix s) row i = Some ?v"
      using sq True "1.prems" by (simp add: matrix_at_def)
    have ih: "CalculateFilter_cols matrixDim row (i + 1) ?s =
      Some (?s\<lparr>stdout := stdout ?s @ concat (map (\<lambda>j. show_int (matrix ?s ! nat row ! nat j) @ tab) [i + 1..matrixDim - 1])\<rparr>)"
      using "1.prems" by (intro "1.IH"[OF True v]) auto
    have up: "[i..matrixDim - 1] = i # [i + 1..matrixDim - 1]"
      using True by (simp add: upto_rec1)
    have "CalculateFilter_cols matrixDim row i s = CalculateFilter_cols matrixDim row (i + 1) ?s"
      using True v by (subst CalculateFilter_cols.simps) simp
    also note ih
    finally show ?thesis by (simp add: up)
  next
    case False
    then show ?thesis by (subst CalculateFilter_cols.simps) simp
  qed
qed

lemma CalculateFilter_rows_square:
  assumes "square N (matrix s)" "0 \<le> row" "endR \<le> N"
  shows "CalculateFilter_rows N endR row s =
    Some (s\<lparr>stdout := stdout s @ concat (map (row_text (matrix s) N) [row..endR - 1]),
             visited := visited s @ [row..endR - 1]\<rparr>)"
  using assms
proof (induction N endR row s rule: CalculateFilter_rows.induct)
  case (1 matrixDim endR row s)
  show ?case
  proof (cases "row < endR")
    case True
    let ?s0 = "s\<lparr>visited := visited s @ [row]\<rparr>"
    let ?s1 = "?s0\<lparr>stdout := stdout ?s0 @ concat (map (\<lambda>j. show_int (matrix ?s0 ! nat row ! nat j) @ tab) [0..matrixDim - 1])\<rparr>"
    let ?s2 = "?s1\<lparr>stdout := stdout ?s1 @ endl\<rparr>"
    have c: "CalculateFilter_cols matrixDim row 0 ?s0 = Some ?s1"
      using "1.prems" True by (intro CalculateFilter_cols_square) auto
    have ih: "CalculateFilter_rows matrixDim endR (row + 1) ?s2 =
      Some (?s2\<lparr>stdout := stdout ?s2 @ concat (map (row_text (matrix ?s2) matrixDim) [row + 1..endR - 1]),
              visited := visited ?s2 @ [row + 1..endR - 1]\<rparr>)"
      using "1.prems" by (intro "1.IH"[OF True c]) auto
    have up: "[row..endR - 1] = row # [row + 1..endR - 1]"
      using True by (simp add: upto_rec1)
    have rt: "row_text (matrix s) matrixDim row =
        concat (map (\<lambda>j. show_int (matrix s ! nat row ! nat j) @ tab) [0..matrixDim - 1]) @ endl"
      by (simp add: row_text_def)
    have "CalculateFilter_rows matrixDim endR row s = CalculateFilter_rows matrixDim endR (row + 1) ?s2"
      using True c by (subst CalculateFilter_rows.simps) simp
    also note ih
    finally show ?thesis by (simp add: up rt)
  next
    case False
    then show ?thesis by (subst CalculateFilter_rows.simps) simp
  qed
qed

lemma GetMatrixWork_rows_before:
  assumes "1 \<le> N" "1 \<le> T" "is_int N" "is_int T" "0 \<le> tid" "tid < T"
  shows "GetMatrixWork N T tid =
      Some (if tid \<ge> N then (- 1, - 1) else (rows_before N T tid, rows_before N T (tid + 1)))"
    and "0 \<le> rows_before N T tid"
    and "rows_before N T tid \<le> rows_before N T (tid + 1)"
    and "rows_before N T (tid + 1) \<le> N"
    and "tid \<ge> N \<Longrightarrow> rows_before N T tid = N"
proof -
  show "GetMatrixWork N T tid =
      Some (if tid \<ge> N then (- 1, - 1) else (rows_before N T tid, rows_before N T (tid + 1)))"
  proof (cases "N \<le> T")
    case True
    then show ?thesis using assms by (auto simp: GetMatrixWork_sparse rows_before_def)
  next
    case False
    then have TN: "T < N" by simp
    have e: "N div T * T + N mod T = N" by simp
    show ?thesis
    proof (cases "tid = T - 1")
      case True
      then have "tid + 1 = T" by simp
      then show ?thesis
        using TN assms e by (simp add: GetMatrixWork_dense rows_before_def)
    next
      case False
      then have "tid + 1 < T" using assms by simp
      then show ?thesis
        using TN assms False by (simp add: GetMatrixWork_dense rows_before_def)
    qed
  qed
  show "0 \<le> rows_before N T tid"
    using assms workload_bounds(1)[of T N] by (auto simp: rows_before_def)
  show "rows_before N T (tid + 1) \<le> N"
  proof (cases "N \<le> T")
    case True
    then show ?thesis by (simp add: rows_before_def)
  next
    case False
    then have TN: "T < N" by simp
    note w = workload_bounds[OF assms(2) TN]
    have "N div T * (tid + 1) \<le> N div T * T"
      using w assms by (intro mult_left_mono) auto
    then have "N div T * (tid + 1) \<le> N" using w by linarith
    then show ?thesis using TN by (simp add: rows_before_def)
  qed
  show "rows_before N T tid \<le> rows_before N T (tid + 1)"
  proof (cases "N \<le> T")
    case True
    then show ?thesis using assms by (auto simp: rows_before_def)
  next
    case False
    then have TN: "T < N" by simp
    note w = workload_bounds[OF assms(2) TN]
    have a: "N div T * tid \<le> N div T * (tid + 1)" using w by (intro mult_left_mono) auto
    have "N div T * tid \<le> N div T * T" using w assms by (intro mult_left_mono) auto
    then have b: "N div T * tid \<le> N" using w by linarith
    show ?thesis using a b TN assms by (auto simp: rows_before_def)
  qed
  show "tid \<ge> N \<Longrightarrow> rows_before N T tid = N"
    using assms by (auto simp: rows_before_def)
qed

lemma CalculateFilter_valid:
  assumes "1 \<le> N" "1 \<le> T" "is_int N" "is_int T" "0 \<le> tid" "tid < T" "square N (matrix s)"
  shows "CalculateFilter N T tid s =
    Some (if tid \<ge> N then s
          else s\<lparr>stdout := stdout s @ thread_header tid T
                    @ concat (map (row_text (matrix s) N)
                        [rows_before N T tid..rows_before N T (tid + 1) - 1]),
                 visited := visited s @ [rows_before N T tid..rows_before N T (tid + 1) - 1]\<rparr>)"
proof (cases "tid \<ge> N")
  case True
  then show ?thesis
    using GetMatrixWork_rows_before(1)[OF assms(1-6)] by (simp add: CalculateFilter_def)
next
  case False
  note rb = GetMatrixWork_rows_before[OF assms(1-6)]
  let ?s = "s\<lparr>stdout := stdout s @ ''Thread '' @ show_int tid @ '' of '' @ show_int T @ endl\<rparr>"
  have ne: "rows_before N T tid \<noteq> - 1"
    using rb(2) by linarith
  have "CalculateFilter N T tid s =
      CalculateFilter_rows N (rows_before N T (tid + 1)) (rows_before N T tid) ?s"
    using False ne by (simp add: CalculateFilter_def rb(1))
  also have "\<dots> = Some (?s\<lparr>stdout := stdout ?s @ concat (map (row_text (matrix ?s) N)
                        [rows_before N T tid..rows_before N T (tid + 1) - 1]),
                 visited := visited ?s @ [rows_before N T tid..rows_before N T (tid + 1) - 1]\<rparr>)"
    using assms rb by (intro CalculateFilter_rows_square) auto
  finally show ?thesis using False by (simp add: thread_header_def)
qed

lemma rows_before_0: "1 \<le> N \<Longrightarrow> 1 \<le> T \<Longrightarrow> rows_before N T 0 = 0"
  by (simp add: rows_before_def)

lemma thread_row_list_valid:
  assumes "1 \<le> N" "1 \<le> T" "is_int N" "is_int T" "0 \<le> tid" "tid < T"
  shows "thread_row_list N T tid = [rows_before N T tid..rows_before N T (tid + 1) - 1]"
proof (cases "tid \<ge> N")
  case True
  note rb = GetMatrixWork_rows_before[OF assms]
  have "rows_before N T (tid + 1) = N" using True rb(3,4,5) by linarith
  then have "[rows_before N T tid..rows_before N T (tid + 1) - 1] = []"
    using rb(5)[OF True] by simp
  then show ?thesis
    using True by (simp add: thread_row_list_def rb(1) no_work_def del: upto.simps)
next
  case False
  note rb = GetMatrixWork_rows_before[OF assms]
  have "rows_before N T tid \<noteq> - 1" using rb(2) by linarith
  then show ?thesis
    using False by (simp add: thread_row_list_def rb(1) no_work_def del: upto.simps)
qed

lemma thread_out_valid:
  assumes "1 \<le> N" "1 \<le> T" "is_int N" "is_int T" "0 \<le> tid" "tid < T"
  shows "thread_out m N T tid =
    (if tid \<ge> N then []
     else thread_header tid T
       @ concat (map (row_text m N) [rows_before N T tid..rows_before N T (tid + 1) - 1]))"
proof -
  note rb = GetMatrixWork_rows_before[OF assms]
  have ne: "rows_before N T tid \<noteq> - 1" using rb(2) by linarith
  show ?thesis
    using ne by (simp add: thread_out_def rb(1) no_work_def thread_row_list_valid[OF assms]
        del: upto.simps)
qed

lemma upto_split_rows:
  assumes "a \<le> b" "b \<le> N"
  shows "[a..N - 1] = [a..b - 1] @ [b..N - (1::int)]"
proof (cases "b = N")
  case True
  then show ?thesis by simp
next
  case False
  then show ?thesis using assms by (intro upto_split1) auto
qed

lemma main_threads_output:
  assumes "1 \<le> N" "1 \<le> T" "is_int N" "is_int T" "0 \<le> i" "i \<le> T" "square N (matrix s)"
  shows "\<exists>s'. main_threads N T i s = Some s'
    \<and> stdout s' = stdout s @ concat (map (thread_out (matrix s) N T) [i..T - 1])
    \<and> visited s' = visited s @ concat (map (thread_row_list N T) [i..T - 1])
    \<and> matrix s' = matrix s"
  using assms
proof (induction N T i s rule: main_threads.induct)
  case (1 N T i s)
  show ?case
  proof (cases "i < T")
    case False
    then have "[i..T - 1] = []" by simp
    then show ?thesis using False by (subst main_threads.simps) (simp del: upto.simps)
  next
    case True
    note v = "1.prems"(1-5) True
    note rb = GetMatrixWork_rows_before[OF v]
    let ?rows = "[rows_before N T i..rows_before N T (i + 1) - 1]"
    let ?s1 = "if i \<ge> N then s
          else s\<lparr>stdout := stdout s @ thread_header i T @ concat (map (row_text (matrix s) N) ?rows),
                 visited := visited s @ ?rows\<rparr>"
    have c: "CalculateFilter N T i s = Some ?s1"
      using CalculateFilter_valid[OF v "1.prems"(7)] .
    have m1: "matrix ?s1 = matrix s" by simp
    have "rows_before N T (i + 1) = N" if "i \<ge> N"
      using that rb(3,4,5) by linarith
    then have e: "?rows = []" if "i \<ge> N" using that rb(5) by simp
    have v1: "visited ?s1 = visited s @ thread_row_list N T i"
      using e by (auto simp: thread_row_list_valid[OF v] simp del: upto.simps)
    have o1: "stdout ?s1 = stdout s @ thread_out (matrix s) N T i"
      by (simp add: thread_out_valid[OF v] del: upto.simps)
    have "\<exists>s'. main_threads N T (i + 1) ?s1 = Some s'
      \<and> stdout s' = stdout ?s1 @ concat (map (thread_out (matrix ?s1) N T) [i + 1..T - 1])
      \<and> visited s' = visited ?s1 @ concat (map (thread_row_list N T) [i + 1..T - 1])
      \<and> matrix s' = matrix ?s1"
      using "1.prems" True by (intro "1.IH"[OF True c]) (auto simp del: upto.simps)
    then obtain s' where s': "main_threads N T (i + 1) ?s1 = Some s'"
      "stdout s' = stdout ?s1 @ concat (map (thread_out (matrix ?s1) N T) [i + 1..T - 1])"
      "visited s' = visited ?s1 @ concat (map (thread_row_list N T) [i + 1..T - 1])"
      "matrix s' = matrix ?s1"
      by blast
    have up: "[i..T - 1] = i # [i + 1..T - 1]" using True by (simp add: upto_rec1)
    have step: "main_threads N T i s = main_threads N T (i + 1) ?s1"
      using True c by (subst main_threads.simps) simp
    have "stdout s' = stdout s @ concat (map (thread_out (matrix s) N T) [i..T - 1])"
      unfolding up s'(2) o1 m1 by simp
    moreover have "visited s' = visited s @ concat (map (thread_row_list N T) [i..T - 1])"
      unfolding up s'(3) v1 by simp
    moreover have "matrix s' = matrix s" unfolding s'(4) m1 ..
    ultimately show ?thesis using s'(1) step by simp
  qed
qed

lemma thread_row_lists_concat:
  assumes "1 \<le> N" "1 \<le> T" "is_int N" "is_int T" "0 \<le> i" "i \<le> T"
  shows "concat (map (thread_row_list N T) [i..T - 1]) = [rows_before N T i..N - 1]"
  using assms(5,6)
proof (induction "nat (T - i)" arbitrary: i)
  case 0
  then have "i = T" by simp
  then show ?case by (simp add: rows_before_def)
next
  case (Suc k)
  then have lt: "i < T" by linarith
  note v = assms(1-4) Suc.prems(1) lt
  note rb = GetMatrixWork_rows_before[OF v]
  have ih: "concat (map (thread_row_list N T) [i + 1..T - 1]) = [rows_before N T (i + 1)..N - 1]"
    using Suc lt by (intro Suc.hyps(1)) auto
  have up: "[i..T - 1] = i # [i + 1..T - 1]" using lt by (simp add: upto_rec1)
  have "concat (map (thread_row_list N T) [i..T - 1]) =
      [rows_before N T i..rows_before N T (i + 1) - 1] @ [rows_before N T (i + 1)..N - 1]"
    unfolding up by (simp add: ih thread_row_list_valid[OF v] del: upto.simps)
  also have "\<dots> = [rows_before N T i..N - 1]"
    using upto_split_rows[OF rb(3,4)] by simp
  finally show ?case .
qed

section \<open>Argument processing on concrete arguments\<close>

lemmas atoi_defs = atoi_def isspace_def isdigit_def c_int_def is_int_def INT_MAX_def INT_MIN_def

lemma atoi_examples:
  "atoi ''-1'' = Some (- 1)" "atoi ''5'' = Some 5" "atoi ''-5'' = Some (- 5)" "atoi ''1'' = Some 1"
  "atoi ''abc'' = Some 0" "atoi ''0'' = Some 0"
  by (simp_all add: atoi_defs)

lemma ProcessArguments_too_few:
  assumes "length argv < 4"
  shows "ProcessArguments argv out = Exit EXIT_FAILURE (out @ invalid_number_message)"
  using assms by (simp add: ProcessArguments_def)

lemma ProcessArguments_zero:
  assumes "4 \<le> length argv"
    and "atoi (argv ! 2) = Some 0 \<or> (atoi (argv ! 2) \<noteq> None \<and> atoi (argv ! 3) = Some 0)"
  shows "ProcessArguments argv out = Exit EXIT_FAILURE (out @ invalid_values_message)"
  using assms by (auto simp: ProcessArguments_def)

lemma main_rejects:
  assumes "ProcessArguments argv [] = Exit status out"
  shows "main rest argv = Exit status out"
  using assms by (simp add: main_def)

lemma main_v1_exit_status:
  "main_v1 [''./convolution''] =
     Exit 0 (invalid_number_message @ endl @ ''Program exiting...'' @ endl)"
  by (simp add: main_v1_def ProcessArguments_v1_def)

section \<open>The rounded square root\<close>

lemma floor_rounded_sqrt:
  fixes d n :: nat
  assumes f: "sqrt_correctly_rounded f" and d: "d < 2 ^ 29"
    and lo: "n * n \<le> d" and hi: "d < (n + 1) * (n + 1)"
  shows "\<lfloor>f (real d)\<rfloor> = int n"
proof (cases "d = n * n")
  case True
  have "d < 2 ^ 31" using d by (rule less_trans) simp
  then have "f (real d) = real n" using f True unfolding sqrt_correctly_rounded_def by blast
  then show ?thesis by simp
next
  case False
  define x where "x = sqrt (real d)"
  define e where "e = x / 2 ^ 53"
  have d31: "d < 2 ^ 31" using d by (rule less_trans) simp
  have err: "\<bar>f (real d) - x\<bar> \<le> e"
    using f d31 unfolding sqrt_correctly_rounded_def x_def e_def by blast
  have xx: "x * x = real d" by (simp add: x_def)
  have nd: "n * n < d" using lo False by simp
  have nx: "real n < x"
  proof -
    have "real (n * n) < real d" using nd by (simp only: of_nat_less_iff)
    then have "sqrt (real (n * n)) < sqrt (real d)" by (rule real_sqrt_less_mono)
    then show ?thesis by (simp add: x_def)
  qed
  have xn: "x < real n + 1"
  proof -
    define m where "m = n + 1"
    have "real d < real (m * m)" using hi unfolding m_def by (simp only: of_nat_less_iff)
    then have "sqrt (real d) < sqrt (real (m * m))" by (rule real_sqrt_less_mono)
    then have "x < real m" by (simp add: x_def)
    then show ?thesis by (simp add: m_def)
  qed
  have x0: "0 < x" using nx by (rule le_less_trans[rotated]) simp
  have dr: "real d < 2 ^ 29" using d by (metis of_nat_less_iff of_nat_numeral of_nat_power)
  have n15: "n < 2 ^ 15"
  proof (rule ccontr)
    assume "\<not> n < 2 ^ 15"
    then have n15': "(2::nat) ^ 15 \<le> n" by simp
    have "(2::nat) ^ 15 * 2 ^ 15 \<le> n * n" using n15' n15' by (rule mult_le_mono)
    then show False using lo d by simp
  qed
  have nr: "real n + 1 \<le> 2 ^ 15"
  proof -
    have "n + 1 \<le> 2 ^ 15" using n15 by simp
    then have "real (n + 1) \<le> real (2 ^ 15)" by (subst of_nat_le_iff)
    then show ?thesis by simp
  qed
  \<comment> \<open>the rounded root is not below n\<close>
  have l1: "1 \<le> real d - real (n * n)"
  proof -
    have "n * n + 1 \<le> d" using nd by simp
    then have "real (n * n + 1) \<le> real d" by (subst of_nat_le_iff)
    then show ?thesis by simp
  qed
  have l2: "(x - real n) * (x + real n) = real d - real (n * n)"
    using xx by (simp add: algebra_simps)
  have l3: "(x - real n) * (x + real n) \<le> (x - real n) * (2 * x)"
    using nx by (intro mult_left_mono) auto
  have l4: "e * (2 * x) \<le> 1"
  proof -
    have "e * (2 * x) = 2 * (x * x) / 2 ^ 53" by (simp add: e_def)
    also have "\<dots> = 2 * real d / 2 ^ 53" by (simp add: xx)
    also have "\<dots> \<le> 1" using dr by simp
    finally show ?thesis .
  qed
  have "e * (2 * x) \<le> (x - real n) * (2 * x)" using l1 l2 l3 l4 by linarith
  then have le: "e \<le> x - real n" using x0 by (simp add: mult_le_cancel_right)
  have lower: "real n \<le> f (real d)" using err le by linarith
  \<comment> \<open>and it is below n + 1\<close>
  have u1: "1 \<le> real ((n + 1) * (n + 1)) - real d"
  proof -
    have "d + 1 \<le> (n + 1) * (n + 1)" using hi by simp
    then have "real (d + 1) \<le> real ((n + 1) * (n + 1))" by (subst of_nat_le_iff)
    then show ?thesis by simp
  qed
  have u2: "(real n + 1 - x) * (real n + 1 + x) = real ((n + 1) * (n + 1)) - real d"
    using xx by (simp add: algebra_simps)
  have u3: "(real n + 1 - x) * (real n + 1 + x) \<le> (real n + 1 - x) * (2 * (real n + 1))"
    using xn by (intro mult_left_mono) auto
  have u4: "e * (2 * (real n + 1)) < 1"
  proof -
    have "x * (real n + 1) \<le> 2 ^ 15 * 2 ^ 15"
      using xn nr x0 by (intro mult_mono) auto
    then have "2 * (x * (real n + 1)) / 2 ^ 53 < 1" by simp
    moreover have "e * (2 * (real n + 1)) = 2 * (x * (real n + 1)) / 2 ^ 53" by (simp add: e_def)
    ultimately show ?thesis by simp
  qed
  have "e * (2 * (real n + 1)) < (real n + 1 - x) * (2 * (real n + 1))"
    using u1 u2 u3 u4 by linarith
  then have ue: "e < real n + 1 - x" by (simp add: mult_less_cancel_right)
  have upper: "f (real d) < real n + 1" using err ue by linarith
  show ?thesis using lower upper by (intro floor_unique) auto
qed

lemma isqrt_exists:
  fixes d :: nat
  shows "\<exists>n. n * n \<le> d \<and> d < (n + 1) * (n + 1)"
proof -
  define n where "n = nat \<lfloor>sqrt (real d)\<rfloor>"
  have s0: "0 \<le> sqrt (real d)" by simp
  have a: "real n \<le> sqrt (real d)" unfolding n_def using s0 by (simp add: of_nat_nat)
  have b: "sqrt (real d) < real n + 1" unfolding n_def using s0 by (simp add: of_nat_nat)
  have "real n * real n \<le> sqrt (real d) * sqrt (real d)" using a by (intro mult_mono) auto
  then have "real (n * n) \<le> real d" by simp
  then have lo: "n * n \<le> d" by (subst (asm) of_nat_le_iff)
  define m where "m = n + 1"
  have b': "sqrt (real d) < real m" using b by (simp add: m_def)
  have m0: "0 < real m" by (simp add: m_def)
  have "sqrt (real d) * sqrt (real d) < real m * real m"
    using b' b' m0 s0 by (rule mult_strict_mono)
  then have "real d < real (m * m)" by simp
  then have "d < m * m" by (subst (asm) of_nat_less_iff)
  then have hi: "d < (n + 1) * (n + 1)" by (simp only: m_def)
  show ?thesis using lo hi by blast
qed

lemma int_of_long_small: "0 \<le> S \<Longrightarrow> S < 2 ^ 31 \<Longrightarrow> int_of_long S = S"
  by (simp add: int_of_long_def)

lemma GetMatrixDimension_root:
  fixes n :: nat
  assumes f: "sqrt_correctly_rounded f"
    and fa: "fs name = Some file" "fseek_ret file = 0" "ftell_ret file = S"
    and S: "0 \<le> S" "S < 2 ^ 31"
    and n: "int (n * n) \<le> S div 4" "S div 4 < int ((n + 1) * (n + 1))"
  shows "GetMatrixDimension f fs name out = Return (int n) out"
proof -
  define d where "d = nat (S div 4)"
  have d0: "0 \<le> S div 4" using S by simp
  have dd: "int d = S div 4" using d0 by (simp add: d_def)
  have "S div 4 < 2 ^ 29" using S by simp
  then have "int d < int (2 ^ 29)" using dd by simp
  then have d29: "d < 2 ^ 29" by (simp only: of_nat_less_iff)
  have lo: "n * n \<le> d" using n(1) dd by (metis of_nat_le_iff)
  have hi: "d < (n + 1) * (n + 1)" using n(2) dd by (metis of_nat_less_iff)
  have fl: "\<lfloor>f (real d)\<rfloor> = int n" using f d29 lo hi by (rule floor_rounded_sqrt)
  have rd: "real_of_int (S div 4) = real d" using dd by (metis of_int_of_nat_eq)
  have "real_of_int (int n) \<le> f (real d)" using fl by (metis of_int_floor_le)
  then have y0: "0 \<le> f (real d)" by simp
  have "(2::nat) ^ 15 \<le> n \<Longrightarrow> False"
  proof -
    assume a: "(2::nat) ^ 15 \<le> n"
    have "(2::nat) ^ 15 * 2 ^ 15 \<le> n * n" using a a by (rule mult_le_mono)
    then show False using lo d29 by simp
  qed
  then have "n < 2 ^ 15" by (meson not_le)
  then have "int n < int (2 ^ 15)" by (simp only: of_nat_less_iff)
  then have ni: "is_int (int n)" by (simp add: is_int_def INT_MAX_def INT_MIN_def)
  have sz: "int_of_long S = S" using S by (rule int_of_long_small)
  have s1: "S \<noteq> - 1" using S by simp
  have dv: "c_div S 4 = Some (S div 4)"
    using S d0 by (simp add: c_div_def c_int_def sdiv_pos is_int_def INT_MAX_def INT_MIN_def)
  have cv: "double_to_int (f (real d)) = Some (int n)"
    using y0 fl ni by (simp add: double_to_int_def c_int_def)
  show ?thesis
    using d0 by (simp add: GetMatrixDimension_def fa sz s1 dv rd cv)
qed

lemma sqrt_is_correctly_rounded: "sqrt_correctly_rounded sqrt"
  unfolding sqrt_correctly_rounded_def
proof (intro allI impI conjI)
  fix d :: nat
  show "\<bar>sqrt (real d) - sqrt (real d)\<bar> \<le> sqrt (real d) / 2 ^ 53" by simp
next
  fix d k :: nat
  assume "d = k * k"
  then show "sqrt (real d) = real k" by simp
qed

section \<open>Claims about GetMatrixWork\<close>

text \<open>
  Claim C1. For every \<open>N \<ge> 1\<close> and \<open>T \<ge> 1\<close> (both C \<open>int\<close> values), \<open>GetMatrixWork N T tid\<close>
  returns for every \<open>tid\<close> in \<open>[0, T)\<close>, the row sets of the returned ranges are pairwise
  disjoint, and their union is exactly \<open>[0, N)\<close>; the "no work" value contributes no row.
\<close>

theorem GetMatrixWork_partition:
  assumes "1 \<le> N" "1 \<le> T" "is_int N" "is_int T"
  shows "(\<forall>tid\<in>{0..<T}. GetMatrixWork N T tid \<noteq> None)
    \<and> (\<Union>tid\<in>{0..<T}. thread_rows N T tid) = {0..<N}
    \<and> (\<forall>i\<in>{0..<T}. \<forall>j\<in>{0..<T}. i \<noteq> j \<longrightarrow> thread_rows N T i \<inter> thread_rows N T j = {})"
proof (intro conjI ballI impI)
  fix tid assume "tid \<in> {0..<T}"
  then show "GetMatrixWork N T tid \<noteq> None"
    using assms by (intro GetMatrixWork_defined) auto
next
  show "(\<Union>tid\<in>{0..<T}. thread_rows N T tid) = {0..<N}"
    using assms by (rule thread_rows_Union)
next
  fix i j assume ij: "i \<in> {0..<T}" "j \<in> {0..<T}" "i \<noteq> j"
  show "thread_rows N T i \<inter> thread_rows N T j = {}"
  proof (cases "i < j")
    case True
    then show ?thesis using assms ij by (intro thread_rows_disjoint_lt) auto
  next
    case False
    then have "j < i" using ij by auto
    then have "thread_rows N T j \<inter> thread_rows N T i = {}"
      using assms ij by (intro thread_rows_disjoint_lt) auto
    then show ?thesis by (simp add: Int_commute)
  qed
qed

theorem GetMatrixWork_partition_witness:
  "GetMatrixWork 10 3 0 \<noteq> None \<and> GetMatrixWork 10 3 1 \<noteq> None \<and> GetMatrixWork 10 3 2 \<noteq> None
   \<and> (\<Union>tid\<in>{0..<3}. thread_rows 10 3 tid) = {0..<10}
   \<and> thread_rows 10 3 0 \<inter> thread_rows 10 3 1 = {}
   \<and> thread_rows 10 3 0 \<inter> thread_rows 10 3 2 = {}
   \<and> thread_rows 10 3 1 \<inter> thread_rows 10 3 2 = {}"
proof -
  have h: "(1::int) \<le> 10" "(1::int) \<le> 3" "is_int 10" "is_int 3"
    by (simp_all add: is_int_def INT_MAX_def INT_MIN_def)
  note p = GetMatrixWork_partition [OF h]
  have m: "(0::int) \<in> {0..<3}" "(1::int) \<in> {0..<3}" "(2::int) \<in> {0..<3}" by simp_all
  have df: "GetMatrixWork 10 3 0 \<noteq> None" "GetMatrixWork 10 3 1 \<noteq> None"
    "GetMatrixWork 10 3 2 \<noteq> None"
    using p m by blast+
  have un: "(\<Union>tid\<in>{0..<3}. thread_rows 10 3 tid) = {0..<10}"
    using p by blast
  have d: "i \<in> {0..<3} \<Longrightarrow> j \<in> {0..<3} \<Longrightarrow> i \<noteq> j
      \<Longrightarrow> thread_rows 10 3 i \<inter> thread_rows 10 3 j = {}" for i j
    using p by blast
  have dj: "thread_rows 10 3 0 \<inter> thread_rows 10 3 1 = {}"
    "thread_rows 10 3 0 \<inter> thread_rows 10 3 2 = {}"
    "thread_rows 10 3 1 \<inter> thread_rows 10 3 2 = {}"
    using d [of 0 1] d [of 0 2] d [of 1 2] by simp_all
  show ?thesis using df un dj by simp
qed

text \<open>
  Claim C3. For \<open>1 \<le> T < N\<close> and \<open>tid\<close> in \<open>[0, T)\<close>, with \<open>workload = N div T\<close> and
  \<open>remainder = N mod T\<close>: a thread below the last gets \<open>[workload * tid, workload * (tid + 1))\<close>
  and the last thread gets \<open>[workload * (T - 1), workload * T + remainder)\<close>, so the whole
  remainder goes to the last thread.
\<close>

theorem GetMatrixWork_dense_range:
  assumes "1 \<le> T" "T < N" "is_int N" "0 \<le> tid" "tid < T"
  shows "GetMatrixWork N T tid =
    Some (if tid < T - 1 then (N div T * tid, N div T * (tid + 1))
          else (N div T * (T - 1), N div T * T + N mod T))"
proof (cases "tid < T - 1")
  case True
  then show ?thesis using GetMatrixWork_dense[OF assms] by simp
next
  case False
  then have "tid = T - 1" using assms by simp
  then show ?thesis using GetMatrixWork_dense[OF assms] by simp
qed

theorem GetMatrixWork_dense_range_witness:
  "GetMatrixWork 10 3 0 = Some (0, 3) \<and> GetMatrixWork 10 3 1 = Some (3, 6)
   \<and> GetMatrixWork 10 3 2 = Some (6, 10)"
  using GetMatrixWork_dense_range [of 3 10 0] GetMatrixWork_dense_range [of 3 10 1]
    GetMatrixWork_dense_range [of 3 10 2]
  by (simp add: is_int_def INT_MAX_def INT_MIN_def)

text \<open>
  Claim C4. For \<open>N \<ge> 1\<close>, \<open>T \<ge> N\<close> and \<open>tid\<close> in \<open>[0, T)\<close>: the thread gets the one-row range
  \<open>[tid, tid + 1)\<close> when \<open>tid < N\<close> and the "no work" value when \<open>tid \<ge> N\<close>; so it never gets
  more than one row, and exactly one when \<open>T = N\<close>.
\<close>

theorem GetMatrixWork_sparse_range:
  assumes "1 \<le> N" "N \<le> T" "is_int T" "0 \<le> tid" "tid < T"
  shows "GetMatrixWork N T tid = Some (if tid < N then (tid, tid + 1) else (- 1, - 1))
    \<and> thread_rows N T tid = (if tid < N then {tid} else {})
    \<and> card (thread_rows N T tid) \<le> 1
    \<and> (T = N \<longrightarrow> card (thread_rows N T tid) = 1)"
  using assms by (auto simp: GetMatrixWork_sparse thread_rows_sparse)

theorem GetMatrixWork_sparse_range_witness:
  "GetMatrixWork 4 6 3 = Some (3, 4) \<and> GetMatrixWork 4 6 4 = Some (- 1, - 1)
   \<and> thread_rows 4 6 3 = {3} \<and> thread_rows 4 6 4 = {}
   \<and> GetMatrixWork 5 5 4 = Some (4, 5) \<and> card (thread_rows 5 5 4) = 1"
  using GetMatrixWork_sparse_range [of 4 6 3] GetMatrixWork_sparse_range [of 4 6 4]
    GetMatrixWork_sparse_range [of 5 5 4]
  by (simp add: is_int_def INT_MAX_def INT_MIN_def)

text \<open>
  Claim C10, as stated, fails: the range given to a thread index \<open>tid\<close> with \<open>T \<le> tid < N\<close>
  can lie wholly beyond row \<open>N\<close>, disjoint from every valid thread's range. For \<open>N = 3\<close>,
  \<open>T = 1\<close> and \<open>tid = 1\<close> the function returns \<open>[3, 6)\<close>, and the only valid thread has \<open>[0, 3)\<close>.
\<close>

theorem GetMatrixWork_unvalidated_tid_counterexample:
  "GetMatrixWork 3 1 1 = Some (3, 6) \<and> thread_rows 3 1 1 = {3..<6}
   \<and> thread_rows 3 1 0 = {0..<3} \<and> thread_rows 3 1 1 \<inter> thread_rows 3 1 0 = {}"
  by (simp add: thread_rows_def rows_of_def no_work_def GetMatrixWork_def c_arith_defs
      signed_divide_int_def signed_modulo_int_def)

text \<open>
  Claim C10, amended. \<open>GetMatrixWork\<close> does not validate \<open>tid\<close>. For \<open>N \<ge> 1\<close>, \<open>T \<ge> 1\<close> and
  any \<open>tid\<close> on which none of \<open>tid + 1\<close>, \<open>workload * tid\<close> and \<open>workload * (tid + 1)\<close> overflows
  \<open>int\<close>, it returns, and the result is the "no work" value \<open>start = end = -1\<close> if and only if
  \<open>tid \<ge> N\<close>. In particular, for \<open>T \<le> tid < N\<close> with \<open>N div T * (tid + 1) \<le> INT_MAX\<close> it returns
  the non-empty range \<open>[N div T * tid, N div T * (tid + 1))\<close>, and this range meets the union
  of the valid threads' ranges if and only if \<open>N div T * tid < N\<close>. Inputs on which one of
  the three computations overflows are outside the statement.
\<close>

theorem GetMatrixWork_unvalidated_tid:
  assumes "1 \<le> N" "1 \<le> T" "is_int N" "is_int T" "is_int tid"
  shows "(tid < INT_MAX \<and> is_int (workload_of N T * tid) \<and> is_int (workload_of N T * (tid + 1))
            \<longrightarrow> (\<exists>r. GetMatrixWork N T tid = Some r \<and> (no_work r \<longleftrightarrow> tid \<ge> N)))
    \<and> (T \<le> tid \<and> tid < N \<and> N div T * (tid + 1) \<le> INT_MAX \<longrightarrow>
          GetMatrixWork N T tid = Some (N div T * tid, N div T * (tid + 1))
          \<and> thread_rows N T tid \<noteq> {}
          \<and> (thread_rows N T tid \<inter> (\<Union>t\<in>{0..<T}. thread_rows N T t) \<noteq> {}
               \<longleftrightarrow> N div T * tid < N))"
proof -
  note form = GetMatrixWork_any_tid[OF assms(1-4), of tid]
  have t1: "is_int (tid + 1) \<longleftrightarrow> tid < INT_MAX"
    using assms(5) unfolding is_int_def INT_MAX_def INT_MIN_def by auto
  have A: "\<exists>r. GetMatrixWork N T tid = Some r"
    if "tid < INT_MAX \<and> is_int (workload_of N T * tid) \<and> is_int (workload_of N T * (tid + 1))"
    unfolding form using that t1 by simp
  have B: "no_work r \<longleftrightarrow> tid \<ge> N" if r: "GetMatrixWork N T tid = Some r" for r
  proof (cases "tid \<ge> N")
    case True
    then show ?thesis using r unfolding form by (auto simp: no_work_def split: if_splits)
  next
    case False
    let ?w = "workload_of N T"
    have w1: "1 \<le> ?w"
      using workload_bounds(1)[of T N] assms by (auto simp: workload_of_def)
    have r0: "0 \<le> remainder_of N T" using assms by (simp add: remainder_of_def)
    have req: "r = (?w * tid, ?w * (tid + 1) + (if tid = T - 1 then remainder_of N T else 0))"
      using r False unfolding form by (auto split: if_splits)
    have "\<not> (?w * tid = - 1 \<and> ?w * (tid + 1) + (if tid = T - 1 then remainder_of N T else 0) = - 1)"
    proof
      assume a: "?w * tid = - 1 \<and> ?w * (tid + 1) + (if tid = T - 1 then remainder_of N T else 0) = - 1"
      have "?w * (tid + 1) = ?w * tid + ?w" by (simp add: algebra_simps)
      then have "?w + (if tid = T - 1 then remainder_of N T else 0) = 0" using a by linarith
      then show False using w1 r0 by (auto split: if_splits)
    qed
    then show ?thesis using False by (simp add: req no_work_def)
  qed
  have C: "GetMatrixWork N T tid = Some (N div T * tid, N div T * (tid + 1))
          \<and> thread_rows N T tid \<noteq> {}
          \<and> (thread_rows N T tid \<inter> (\<Union>t\<in>{0..<T}. thread_rows N T t) \<noteq> {}
               \<longleftrightarrow> N div T * tid < N)"
    if h: "T \<le> tid \<and> tid < N \<and> N div T * (tid + 1) \<le> INT_MAX"
  proof -
    let ?w = "N div T"
    have TN: "T < N" using h by simp
    have w: "1 \<le> ?w" "?w * T \<le> N" using workload_bounds[OF assms(2) TN] by simp_all
    have wo: "workload_of N T = ?w" using TN by (simp add: workload_of_def)
    have t0: "0 \<le> tid" using h assms by simp
    have lo: "0 \<le> ?w * tid" using w t0 by simp
    have step: "?w * (tid + 1) = ?w * tid + ?w" by (simp add: algebra_simps)
    have ii: "is_int (?w * tid)" "is_int (tid + 1)" "is_int (?w * (tid + 1))"
      using h lo step w t0 assms unfolding is_int_def INT_MAX_def INT_MIN_def by linarith+
    have gw: "GetMatrixWork N T tid = Some (?w * tid, ?w * (tid + 1))"
      using form ii h assms by (simp add: wo)
    have rows: "thread_rows N T tid = {?w * tid ..< ?w * (tid + 1)}"
      using lo by (auto simp: thread_rows_def gw rows_of_def no_work_def)
    have ne: "?w * tid \<in> thread_rows N T tid" using w step unfolding rows by simp
    have U: "(\<Union>t\<in>{0..<T}. thread_rows N T t) = {0..<N}"
      using assms by (intro thread_rows_Union)
    have ov: "thread_rows N T tid \<inter> (\<Union>t\<in>{0..<T}. thread_rows N T t) \<noteq> {}
               \<longleftrightarrow> ?w * tid < N"
    proof
      assume "thread_rows N T tid \<inter> (\<Union>t\<in>{0..<T}. thread_rows N T t) \<noteq> {}"
      then have "\<exists>x. x \<in> {?w * tid ..< ?w * (tid + 1)} \<and> x \<in> {0..<N}"
        unfolding U rows by blast
      then obtain x where "?w * tid \<le> x" "x < N" by auto
      then show "?w * tid < N" by simp
    next
      assume "?w * tid < N"
      then have "?w * tid \<in> {0..<N}" using lo by simp
      then show "thread_rows N T tid \<inter> (\<Union>t\<in>{0..<T}. thread_rows N T t) \<noteq> {}"
        unfolding U using ne by auto
    qed
    show ?thesis using gw ne ov by auto
  qed
  have AB: "\<exists>r. GetMatrixWork N T tid = Some r \<and> (no_work r \<longleftrightarrow> tid \<ge> N)"
    if "tid < INT_MAX \<and> is_int (workload_of N T * tid) \<and> is_int (workload_of N T * (tid + 1))"
    using A[OF that] B by blast
  show ?thesis using AB C by blast
qed

theorem GetMatrixWork_unvalidated_tid_witness:
  "GetMatrixWork 7 4 4 = Some (4, 5) \<and> \<not> no_work (4, 5) \<and> thread_rows 7 4 4 \<noteq> {}
   \<and> thread_rows 7 4 4 \<inter> (\<Union>t\<in>{0..<4}. thread_rows 7 4 t) \<noteq> {}
   \<and> GetMatrixWork 4 6 7 = Some (- 1, - 1) \<and> no_work (- 1, - 1)"
proof -
  have h: "(1::int) \<le> 7" "(1::int) \<le> 4" "is_int 7" "is_int 4" "is_int 4"
    and k: "(1::int) \<le> 4" "(1::int) \<le> 6" "is_int 4" "is_int 6" "is_int 7"
    by (simp_all add: is_int_def INT_MAX_def INT_MIN_def)
  have dense: "(4::int) \<le> 4 \<and> (4::int) < 7 \<and> (7::int) div 4 * (4 + 1) \<le> INT_MAX"
    by (simp add: INT_MAX_def)
  have sparse: "(7::int) < INT_MAX \<and> is_int (workload_of 4 6 * 7)
      \<and> is_int (workload_of 4 6 * (7 + 1))"
    by (simp add: workload_of_def is_int_def INT_MAX_def INT_MIN_def)
  from GetMatrixWork_unvalidated_tid [OF h] dense
  have d: "GetMatrixWork 7 4 4 = Some (7 div 4 * 4, 7 div 4 * (4 + 1))"
    "thread_rows 7 4 4 \<noteq> {}"
    "thread_rows 7 4 4 \<inter> (\<Union>t\<in>{0..<4}. thread_rows 7 4 t) \<noteq> {}"
    by simp_all
  from GetMatrixWork_unvalidated_tid [OF k] sparse
  obtain r where r: "GetMatrixWork 4 6 7 = Some r" "no_work r \<longleftrightarrow> (7::int) \<ge> 4" by blast
  then have nr: "no_work r" by simp
  then have "r = (- 1, - 1)" by (cases r) (simp add: no_work_def)
  then show ?thesis using d r nr by (simp add: no_work_def)
qed

section \<open>Claims about CalculateFilter and the loop of main\<close>

text \<open>
  Claim C5. Whenever \<open>GetMatrixWork\<close> yields the "no work" value for a thread,
  \<open>CalculateFilter\<close> returns at once and leaves the state as it was: nothing is written, no
  iteration of the row loop runs, and this holds for every matrix, also one that has no rows
  at all, so that no element of the matrix is read.
\<close>

theorem CalculateFilter_no_work:
  assumes "GetMatrixWork N T tid = Some r" "no_work r"
  shows "CalculateFilter N T tid s = Some s"
  using assms by (cases r) (simp add: CalculateFilter_def no_work_def)

theorem CalculateFilter_no_work_witness:
  "GetMatrixWork 4 6 4 = Some (- 1, - 1) \<and> no_work (- 1, - 1)
   \<and> CalculateFilter 4 6 4 \<lparr>matrix = [], stdout = [], visited = []\<rparr>
       = Some \<lparr>matrix = [], stdout = [], visited = []\<rparr>"
proof -
  have g: "GetMatrixWork 4 6 4 = Some (- 1, - 1)"
    by (simp add: GetMatrixWork_def c_arith_defs)
  have n: "no_work (- 1, - 1)" by (simp add: no_work_def)
  show ?thesis using g n CalculateFilter_no_work [OF g n] by simp
qed

text \<open>
  Claim C6. For a thread of a valid call (\<open>N \<ge> 1\<close>, \<open>T \<ge> 1\<close>, \<open>0 \<le> tid < T\<close>, a matrix of
  dimension \<open>N\<close>) whose range \<open>[start, end)\<close> is not the "no work" value, the range is
  non-empty and within \<open>[0, N)\<close>, the row loop runs for the rows \<open>start, \<dots>, end - 1\<close> in
  ascending order, and after the header line \<open>Thread tid of T\<close> it writes one line per row,
  holding the row's \<open>N\<close> values in column order \<open>0, \<dots>, N - 1\<close>, each value followed by a tab.
\<close>

theorem CalculateFilter_rows_output:
  assumes "1 \<le> N" "1 \<le> T" "is_int N" "is_int T" "0 \<le> tid" "tid < T" "square N (matrix s)"
    and "GetMatrixWork N T tid = Some (start, endR)" "\<not> no_work (start, endR)"
  shows "0 \<le> start \<and> start < endR \<and> endR \<le> N
    \<and> CalculateFilter N T tid s =
        Some (s\<lparr>stdout := stdout s @ thread_header tid T
                  @ concat (map (row_text (matrix s) N) [start..endR - 1]),
               visited := visited s @ [start..endR - 1]\<rparr>)"
proof -
  note rb = GetMatrixWork_rows_before[OF assms(1-6)]
  have tn: "\<not> tid \<ge> N"
    using assms(8,9) unfolding rb(1) by (auto simp: no_work_def split: if_splits)
  then have se: "start = rows_before N T tid" "endR = rows_before N T (tid + 1)"
    using assms(8) unfolding rb(1) by auto
  have lt: "start < endR"
  proof (cases "N \<le> T")
    case True
    then show ?thesis using tn assms unfolding se by (auto simp: rows_before_def)
  next
    case False
    then have TN: "T < N" by simp
    note w = workload_bounds[OF assms(2) TN]
    have "N div T * (tid + 1) = N div T * tid + N div T" by (simp add: algebra_simps)
    then have a: "N div T * tid < N div T * (tid + 1)" using w by linarith
    have "N div T * tid \<le> N div T * (T - 1)" using w assms by (intro mult_left_mono) auto
    also have "\<dots> = N div T * T - N div T" by (simp add: algebra_simps)
    finally have b: "N div T * tid < N" using w by linarith
    show ?thesis using a b TN assms unfolding se by (auto simp: rows_before_def)
  qed
  show ?thesis
    using rb(2,4) lt tn CalculateFilter_valid[OF assms(1-7)] unfolding se by simp
qed

theorem CalculateFilter_rows_output_witness:
  "GetMatrixWork 3 2 1 = Some (1, 3) \<and> \<not> no_work (1, 3)
   \<and> CalculateFilter 3 2 1 \<lparr>matrix = [[1, 2, 3], [4, - 5, 6], [7, 8, 120]], stdout = [], visited = []\<rparr> =
       Some \<lparr>matrix = [[1, 2, 3], [4, - 5, 6], [7, 8, 120]],
             stdout = ''Thread 1 of 2'' @ endl @ ''4'' @ tab @ ''-5'' @ tab @ ''6'' @ tab @ endl
                      @ ''7'' @ tab @ ''8'' @ tab @ ''120'' @ tab @ endl,
             visited = [1, 2]\<rparr>"
proof -
  let ?s = "\<lparr>matrix = [[1, 2, 3], [4, - 5, 6], [7, 8, 120]], stdout = [], visited = []\<rparr>"
  have h: "(1::int) \<le> 3" "(1::int) \<le> 2" "is_int 3" "is_int 2" "(0::int) \<le> 1" "(1::int) < 2"
    by (simp_all add: is_int_def INT_MAX_def INT_MIN_def)
  have sq: "square 3 (matrix ?s)" by (simp add: square_def)
  have g: "GetMatrixWork 3 2 1 = Some (1, 3)"
    by (simp add: GetMatrixWork_def c_arith_defs signed_divide_int_def signed_modulo_int_def)
  have n: "\<not> no_work (1, 3)" by (simp add: no_work_def)
  have up: "[1..(2::int)] = [1, 2]" "[0..(2::int)] = [0, 1, 2]" by (simp_all add: upto.simps)
  have sh: "show_int 1 = ''1''" "show_int 2 = ''2''" "show_int 4 = ''4''" "show_int (- 5) = ''-5''"
    "show_int 6 = ''6''" "show_int 7 = ''7''" "show_int 8 = ''8''" "show_int 120 = ''120''"
    by code_simp+
  show ?thesis
    using g n CalculateFilter_rows_output [OF h sq g n]
    by (simp add: thread_header_def row_text_def up sh)
qed

text \<open>
  Claim C7. \<open>CalculateFilter\<close> never changes the matrix: whenever a call returns, for any
  matrix, dimension, thread count and thread index, the matrix of the final state is the
  matrix of the initial state; and a valid call on a matrix of dimension \<open>N\<close> does return.
\<close>

theorem CalculateFilter_matrix_unchanged:
  "(\<forall>s'. CalculateFilter N T tid s = Some s' \<longrightarrow> matrix s' = matrix s)
   \<and> (1 \<le> N \<and> 1 \<le> T \<and> is_int N \<and> is_int T \<and> 0 \<le> tid \<and> tid < T \<and> square N (matrix s)
        \<longrightarrow> (\<exists>s'. CalculateFilter N T tid s = Some s' \<and> matrix s' = matrix s))"
proof (intro conjI allI impI)
  fix s' assume "CalculateFilter N T tid s = Some s'"
  then show "matrix s' = matrix s" by (rule CalculateFilter_frame)
next
  assume v: "1 \<le> N \<and> 1 \<le> T \<and> is_int N \<and> is_int T \<and> 0 \<le> tid \<and> tid < T \<and> square N (matrix s)"
  then have "\<exists>s'. CalculateFilter N T tid s = Some s'"
    using CalculateFilter_valid[of N T tid s] by simp
  then show "\<exists>s'. CalculateFilter N T tid s = Some s' \<and> matrix s' = matrix s"
    using CalculateFilter_frame by blast
qed

theorem CalculateFilter_matrix_unchanged_witness:
  "map_option matrix (CalculateFilter 2 2 1 \<lparr>matrix = [[1, 2], [3, 4]], stdout = [], visited = []\<rparr>)
     = Some [[1, 2], [3, 4]]"
proof -
  let ?s = "\<lparr>matrix = [[1, 2], [3, 4]], stdout = [], visited = []\<rparr>"
  have v: "(1::int) \<le> 2 \<and> (1::int) \<le> 2 \<and> is_int 2 \<and> is_int 2 \<and> (0::int) \<le> 1 \<and> (1::int) < 2
      \<and> square 2 (matrix ?s)"
    by (simp add: is_int_def INT_MAX_def INT_MIN_def square_def)
  from CalculateFilter_matrix_unchanged [of 2 2 1 ?s] v
  obtain s' where "CalculateFilter 2 2 1 ?s = Some s'" "matrix s' = matrix ?s" by blast
  then show ?thesis by simp
qed

text \<open>
  Claim C9. For \<open>N \<ge> 1\<close>, \<open>T \<ge> 1\<close> and a matrix of dimension \<open>N\<close>, the loop of \<open>main\<close> that
  calls \<open>CalculateFilter\<close> for \<open>tid = 0, \<dots>, T - 1\<close> runs to its end. What it writes is, thread
  after thread in ascending \<open>tid\<close>, the header of each thread that has work followed by the
  lines of the rows of its range; the ranges of the threads \<open>0, \<dots>, T - 1\<close>, put one after the
  other, are exactly the rows \<open>0, 1, \<dots>, N - 1\<close>. So every row is printed once, in ascending
  order over the whole loop; the probe of the row loop records the same order, and the
  matrix is unchanged.
\<close>

theorem main_threads_all_rows:
  assumes "1 \<le> N" "1 \<le> T" "is_int N" "is_int T" "square N (matrix s)"
  shows "\<exists>s'. main_threads N T 0 s = Some s'
    \<and> stdout s' = stdout s @ concat (map (thread_out (matrix s) N T) [0..T - 1])
    \<and> concat (map (thread_row_list N T) [0..T - 1]) = [0..N - 1]
    \<and> visited s' = visited s @ [0..N - 1] \<and> matrix s' = matrix s"
proof -
  have z: "(0::int) \<le> 0" "0 \<le> T" using assms by simp_all
  have rl: "concat (map (thread_row_list N T) [0..T - 1]) = [0..N - 1]"
    using thread_row_lists_concat[OF assms(1-4) z] assms by (simp add: rows_before_0 del: upto.simps)
  from main_threads_output[OF assms(1-4) z assms(5)]
  show ?thesis unfolding rl by (simp del: upto.simps)
qed

theorem main_threads_all_rows_witness:
  "map_option stdout (main_threads 3 2 0
      \<lparr>matrix = [[1, 2, 3], [4, - 5, 6], [7, 8, 120]], stdout = [], visited = []\<rparr>)
     = Some (''Thread 0 of 2'' @ endl @ ''1'' @ tab @ ''2'' @ tab @ ''3'' @ tab @ endl
             @ ''Thread 1 of 2'' @ endl @ ''4'' @ tab @ ''-5'' @ tab @ ''6'' @ tab @ endl
             @ ''7'' @ tab @ ''8'' @ tab @ ''120'' @ tab @ endl)
   \<and> concat (map (thread_row_list 3 2) [0, 1]) = [0, 1, 2]
   \<and> map_option visited (main_threads 3 2 0
        \<lparr>matrix = [[1, 2, 3], [4, - 5, 6], [7, 8, 120]], stdout = [], visited = []\<rparr>)
     = Some [0, 1, 2]"
proof -
  let ?s = "\<lparr>matrix = [[1, 2, 3], [4, - 5, 6], [7, 8, 120]], stdout = [], visited = []\<rparr>"
  have h: "(1::int) \<le> 3" "(1::int) \<le> 2" "is_int 3" "is_int 2"
    by (simp_all add: is_int_def INT_MAX_def INT_MIN_def)
  have sq: "square 3 (matrix ?s)" by (simp add: square_def)
  have up: "[0..(1::int)] = [0, 1]" "[0..(2::int)] = [0, 1, 2]" "[0..(0::int)] = [0]"
    "[1..(2::int)] = [1, 2]"
    by (simp_all add: upto.simps)
  have g: "GetMatrixWork 3 2 0 = Some (0, 1)" "GetMatrixWork 3 2 1 = Some (1, 3)"
    by (simp_all add: GetMatrixWork_def c_arith_defs signed_divide_int_def signed_modulo_int_def)
  have sh: "show_int 0 = ''0''" "show_int 1 = ''1''" "show_int 2 = ''2''" "show_int 3 = ''3''"
    "show_int 4 = ''4''" "show_int (- 5) = ''-5''" "show_int 6 = ''6''" "show_int 7 = ''7''"
    "show_int 8 = ''8''" "show_int 120 = ''120''"
    by code_simp+
  have out: "concat (map (thread_out (matrix ?s) 3 2) [0, 1]) =
      ''Thread 0 of 2'' @ endl @ ''1'' @ tab @ ''2'' @ tab @ ''3'' @ tab @ endl
      @ ''Thread 1 of 2'' @ endl @ ''4'' @ tab @ ''-5'' @ tab @ ''6'' @ tab @ endl
      @ ''7'' @ tab @ ''8'' @ tab @ ''120'' @ tab @ endl"
    by (simp add: thread_out_def thread_row_list_def g no_work_def thread_header_def
        row_text_def up sh)
  from main_threads_all_rows [OF h sq]
  obtain s' where s': "main_threads 3 2 0 ?s = Some s'"
    "stdout s' = stdout ?s @ concat (map (thread_out (matrix ?s) 3 2) [0..2 - 1])"
    "concat (map (thread_row_list 3 2) [0..2 - 1]) = [0..3 - 1]"
    "visited s' = visited ?s @ [0..3 - 1]"
    by blast
  show ?thesis using s' out by (simp add: up)
qed

section \<open>Claims about the arguments and the dimension\<close>

text \<open>
  Claim C2 says that every invocation with a filter depth or a thread count that is not an
  integer above 0 ends with a non-zero exit status and the usage message. The final
  revision rejects too few arguments and values that \<open>atoi\<close> reads as 0
  (\<open>ProcessArguments_too_few\<close>, \<open>ProcessArguments_zero\<close>), but it accepts negative values,
  against its own usage text "Where filterDepth and numThreads are ints > 0": for the depth
  \<open>-1\<close>, and for the thread count \<open>-5\<close>, \<open>ProcessArguments\<close> returns normally, nothing is
  written, and \<open>main\<close> goes on with the statements after the call.
\<close>

theorem ProcessArguments_accepts_negative:
  "ProcessArguments [''./convolution'', ''test_matrix'', ''-1'', ''5''] []
     = Return (''test_matrix'', - 1, 5) []
   \<and> main rest [''./convolution'', ''test_matrix'', ''-1'', ''5'']
     = rest (''test_matrix'', - 1, 5) []
   \<and> ProcessArguments [''./convolution'', ''test_matrix'', ''1'', ''-5''] []
     = Return (''test_matrix'', 1, - 5) []"
  by (simp add: main_def ProcessArguments_def atoi_examples)

text \<open>
  Claim C8. For a file that opens and whose size \<open>S\<close> is below \<open>2 ^ 31\<close> bytes,
  \<open>GetMatrixDimension\<close> returns the integer square root of \<open>S div 4\<close>, that is the \<open>r \<ge> 0\<close>
  with \<open>r * r \<le> S div 4 < (r + 1) * (r + 1)\<close>; so for a file of \<open>N * N\<close> integers of 4 bytes
  it returns \<open>N\<close>. This holds for every correctly rounded \<open>sqrt\<close> on \<open>double\<close>.
\<close>

theorem GetMatrixDimension_isqrt:
  assumes "sqrt_correctly_rounded f"
    and "fs name = Some file" "fseek_ret file = 0" "ftell_ret file = S"
    and "0 \<le> S" "S < 2 ^ 31"
  shows "(\<exists>r. GetMatrixDimension f fs name out = Return r out
           \<and> 0 \<le> r \<and> r * r \<le> S div 4 \<and> S div 4 < (r + 1) * (r + 1))
    \<and> (\<forall>N. 0 \<le> N \<and> S = 4 * (N * N) \<longrightarrow> GetMatrixDimension f fs name out = Return N out)"
proof (intro conjI allI impI)
  have d0: "0 \<le> S div 4" using assms by simp
  obtain n :: nat where n: "n * n \<le> nat (S div 4)" "nat (S div 4) < (n + 1) * (n + 1)"
    using isqrt_exists[of "nat (S div 4)"] by blast
  have n': "int (n * n) \<le> S div 4" "S div 4 < int ((n + 1) * (n + 1))"
  proof -
    have "int (n * n) \<le> int (nat (S div 4))" using n(1) by (simp only: of_nat_le_iff)
    then show "int (n * n) \<le> S div 4" using d0 by simp
    have "int (nat (S div 4)) < int ((n + 1) * (n + 1))" using n(2) by (simp only: of_nat_less_iff)
    then show "S div 4 < int ((n + 1) * (n + 1))" using d0 by simp
  qed
  have g: "GetMatrixDimension f fs name out = Return (int n) out"
    using assms n' by (rule GetMatrixDimension_root)
  have "int n * int n \<le> S div 4" "S div 4 < (int n + 1) * (int n + 1)"
    using n' by (simp_all only: of_nat_mult of_nat_add of_nat_1)
  then show "\<exists>r. GetMatrixDimension f fs name out = Return r out
           \<and> 0 \<le> r \<and> r * r \<le> S div 4 \<and> S div 4 < (r + 1) * (r + 1)"
    using g by (intro exI[of _ "int n"]) simp
next
  fix N :: int
  assume a: "0 \<le> N \<and> S = 4 * (N * N)"
  define n where "n = nat N"
  have nN: "int n = N" using a by (simp add: n_def)
  have sd: "S div 4 = N * N" using a by simp
  have e1: "int (n * n) = N * N" "int ((n + 1) * (n + 1)) = (N + 1) * (N + 1)"
    by (simp_all only: of_nat_mult of_nat_add of_nat_1 nN)
  have "N * N < (N + 1) * (N + 1)" using a by (simp add: algebra_simps)
  then have "int (n * n) \<le> S div 4" "S div 4 < int ((n + 1) * (n + 1))"
    unfolding e1 sd by simp_all
  with assms have "GetMatrixDimension f fs name out = Return (int n) out"
    by (rule GetMatrixDimension_root)
  then show "GetMatrixDimension f fs name out = Return N out" by (simp add: nN)
qed

theorem GetMatrixDimension_isqrt_witness:
  "GetMatrixDimension sqrt (\<lambda>name. Some \<lparr>fseek_ret = 0, ftell_ret = 64\<rparr>) ''test_matrix'' []
     = Return 4 []"
proof -
  let ?fs = "\<lambda>name::string. Some \<lparr>fseek_ret = 0, ftell_ret = 64\<rparr>"
  have h: "?fs ''test_matrix'' = Some \<lparr>fseek_ret = 0, ftell_ret = 64\<rparr>"
    "fseek_ret \<lparr>fseek_ret = 0, ftell_ret = 64\<rparr> = 0"
    "ftell_ret \<lparr>fseek_ret = 0, ftell_ret = 64\<rparr> = 64" "(0::int) \<le> 64" "(64::int) < 2 ^ 31"
    by simp_all
  have n: "0 \<le> (4::int) \<and> (64::int) = 4 * (4 * 4)" by simp
  note t = GetMatrixDimension_isqrt [where f = sqrt and fs = ?fs and name = "''test_matrix''"
      and out = "[]", OF sqrt_is_correctly_rounded h]
  from t have "\<forall>N. 0 \<le> N \<and> (64::int) = 4 * (N * N)
      \<longrightarrow> GetMatrixDimension sqrt ?fs ''test_matrix'' [] = Return N []"
    by (rule conjunct2)
  then have "0 \<le> (4::int) \<and> (64::int) = 4 * (4 * 4)
      \<longrightarrow> GetMatrixDimension sqrt ?fs ''test_matrix'' [] = Return 4 []"
    by (rule spec)
  then show ?thesis using n by (rule mp)
qed

end
